theory Spec2Isabelle
  imports Complex_Main
begin

section \<open>The C library functions the parser calls\<close>

text \<open>
  The configuration parser of \<^verbatim>\<open>BoardConfig.cpp\<close> works on a \<^verbatim>\<open>char\<close> buffer with
  \<^verbatim>\<open>fgets\<close>, \<^verbatim>\<open>strstr\<close>, \<^verbatim>\<open>strtok\<close>, \<^verbatim>\<open>atoi\<close> and \<^verbatim>\<open>atof\<close>. A C string is a
  \<open>string\<close> here; a null pointer is \<open>None\<close>. Floats are idealised as reals: rounding
  and NaN are not modelled.
\<close>

text \<open>What the program does where C++ leaves the behaviour undefined.\<close>

datatype fault =
    NullPointer  \<comment> \<open>a null \<^verbatim>\<open>char *\<close> is read (\<^verbatim>\<open>atoi\<close>, \<^verbatim>\<open>atof\<close>, \<^verbatim>\<open>tmp[0]\<close>, \<^verbatim>\<open>std::string = NULL\<close>)\<close>
  | OutOfBounds  \<comment> \<open>an element beyond the end of a vector or array is accessed\<close>

definition newline :: char where
  "newline = CHR 0x0A"

definition isspace :: "char \<Rightarrow> bool" where
  "isspace c = (c \<in> set [CHR '' '', CHR 0x09, CHR 0x0A, CHR 0x0B, CHR 0x0C, CHR 0x0D])"

definition isdigit :: "char \<Rightarrow> bool" where
  "isdigit c = (c \<in> set ''0123456789'')"

definition digit_val :: "char \<Rightarrow> nat" where
  "digit_val c = of_char c - 48"

text \<open>The value of the longest prefix of decimal digits, from an accumulator.\<close>

fun digits_val :: "nat \<Rightarrow> string \<Rightarrow> nat" where
  "digits_val acc [] = acc"
| "digits_val acc (c # cs) =
     (if isdigit c then digits_val (acc * 10 + digit_val c) cs else acc)"

text \<open>An optional sign: whether it is a minus, and the text after it.\<close>

fun sign_of :: "string \<Rightarrow> bool \<times> string" where
  "sign_of [] = (False, [])"
| "sign_of (c # cs) =
     (if c = CHR ''-'' then (True, cs)
      else if c = CHR ''+'' then (False, cs)
      else (False, c # cs))"

text \<open>
  \<^verbatim>\<open>atoi\<close>: leading white space, an optional sign, decimal digits; 0 when there is no
  digit. The target is a 32-bit board whose \<^verbatim>\<open>atoi\<close> is \<^verbatim>\<open>(int) strtol(s, NULL, 10)\<close>, which
  saturates at the ends of the 32-bit range.
\<close>

definition atoi :: "string \<Rightarrow> int" where
  "atoi s =
     (let (neg, t) = sign_of (dropWhile isspace s);
          v = int (digits_val 0 t);
          r = (if neg then - v else v)
      in max (- 2147483648) (min 2147483647 r))"

text \<open>
  \<^verbatim>\<open>atof\<close> on decimal text: leading white space, an optional sign, digits with an optional
  point, an optional exponent; 0 when no number starts the text. The hexadecimal, \<^verbatim>\<open>inf\<close>
  and \<^verbatim>\<open>nan\<close> forms are not modelled.
\<close>

definition exponent_of :: "string \<Rightarrow> int" where
  "exponent_of s =
     (case s of
        [] \<Rightarrow> 0
      | c # cs \<Rightarrow>
          if c = CHR ''e'' \<or> c = CHR ''E'' then
            (let (neg, t) = sign_of cs
             in if takeWhile isdigit t = [] then 0
                else if neg then - int (digits_val 0 t) else int (digits_val 0 t))
          else 0)"

definition atof :: "string \<Rightarrow> real" where
  "atof s =
     (let (neg, t) = sign_of (dropWhile isspace s);
          ip = takeWhile isdigit t;
          r1 = dropWhile isdigit t;
          fp = (if take 1 r1 = ''.'' then takeWhile isdigit (drop 1 r1) else []);
          r2 = (if take 1 r1 = ''.'' then dropWhile isdigit (drop 1 r1) else r1)
      in if ip = [] \<and> fp = [] then 0
         else
           (let m = real (digits_val 0 (ip @ fp));
                e = exponent_of r2 - int (length fp);
                v = (if 0 \<le> e then m * 10 ^ nat e else m / 10 ^ nat (- e))
            in if neg then - v else v))"

text \<open>\<^verbatim>\<open>strstr(hay, needle) != NULL\<close>: the needle occurs in the haystack.\<close>

fun strstr :: "string \<Rightarrow> string \<Rightarrow> bool" where
  "strstr [] needle = (needle = [])"
| "strstr (c # cs) needle =
     (take (length needle) (c # cs) = needle \<or> strstr cs needle)"

text \<open>
  \<^verbatim>\<open>strtok\<close> keeps a pointer to the text that is left. \<open>strtok delims rest\<close> is one call
  on that text: it skips leading delimiters, returns the token up to the next delimiter
  (\<open>None\<close> for the null pointer, when nothing but delimiters is left) and the text after
  that delimiter, for the next call.
\<close>

definition strtok :: "string \<Rightarrow> string \<Rightarrow> string option \<times> string" where
  "strtok delims rest =
     (let s = dropWhile (\<lambda>c. c \<in> set delims) rest
      in if s = [] then (None, [])
         else (Some (takeWhile (\<lambda>c. c \<notin> set delims) s),
               drop 1 (dropWhile (\<lambda>c. c \<notin> set delims) s)))"

text \<open>
  \<^verbatim>\<open>fgets(Buffer, n, fp)\<close> on the unread text of the file: at most \<open>n - 1\<close> characters,
  stopping after a newline.
\<close>

definition fgets :: "nat \<Rightarrow> string \<Rightarrow> string" where
  "fgets n s = take (min (n - 1) (length (takeWhile (\<lambda>c. c \<noteq> newline) s) + 1)) s"

text \<open>
  The buffers that the loop \<^verbatim>\<open>while (fgets(Buffer, BUFFLEN, fp) != NULL)\<close> sees, in order.
  \<^verbatim>\<open>fgets\<close> returns the null pointer at the end of the file, and at once when the buffer
  has room for no character (\<open>n < 2\<close>).
\<close>

function fgets_loop :: "nat \<Rightarrow> string \<Rightarrow> string list" where
  "fgets_loop n s =
     (if s = [] \<or> n < 2 then [] else fgets n s # fgets_loop n (drop (length (fgets n s)) s))"
  by pat_completeness auto
termination
  by (relation "measure (\<lambda>(n, s). length s)") (auto simp: fgets_def)

declare fgets_loop.simps [simp del]

text \<open>The buffer as the string functions see it: up to the first NUL byte.\<close>

definition cstr :: "string \<Rightarrow> string" where
  "cstr buf = takeWhile (\<lambda>c. c \<noteq> CHR 0x00) buf"

text \<open>\<^verbatim>\<open>Buffer[0] == c\<close>.\<close>

definition first_is :: "char \<Rightarrow> string \<Rightarrow> bool" where
  "first_is c buf = (take 1 buf = [c])"

section \<open>The data model\<close>

text \<open>
  The structures are declared in \<^verbatim>\<open>Structs.h\<close>; the fields are those the two source
  files read and write. \<^verbatim>\<open>setBoundsFromID\<close> writes a field \<^verbatim>\<open>RangeEnd\<close> of a port, and the
  control loop reads the fields \<^verbatim>\<open>RangeFloor\<close> and \<^verbatim>\<open>RangeCeiling\<close>, so a port has all three.
\<close>

record SensorInfo =
  Type :: string
  Unit :: string
  Multiplier :: real
  RangeStart :: real
  RangeEnd :: real

text \<open>A float that may be \<^verbatim>\<open>HUGE_VAL\<close> or \<^verbatim>\<open>-HUGE_VAL\<close> (plus and minus infinity).\<close>

datatype fvalue = MinusHuge | Finite real | PlusHuge

record PortInfo =
  Name :: string
  SensorID :: int
  Multiplier :: real
  Description :: string
  RangeFloor :: real
  RangeCeiling :: real
  RangeEnd :: real
  Value :: fvalue

record BoardSpecs =
  ID :: string
  NetworkSSID :: string
  NetworkPassword :: string
  DatabaseTableName :: string
  RemoteIP :: string
  RemoteDir :: string
  RemotePort :: int
  HostName :: string
  Ports :: "PortInfo list"
  Sensors :: "SensorInfo list"

text \<open>
  Modelled from the spec: \<^verbatim>\<open>Structs.h\<close>, which declares the structures and what a
  default-constructed one holds, is not under src/. Unset numeric fields default to 0 and
  unset string fields to the empty string.
\<close>

definition PortInfo_new :: PortInfo where
  "PortInfo_new =
     \<lparr>Name = [], SensorID = 0, Multiplier = 0, Description = [],
      RangeFloor = 0, RangeCeiling = 0, RangeEnd = 0, Value = Finite 0\<rparr>"

definition BoardSpecs_new :: BoardSpecs where
  "BoardSpecs_new =
     \<lparr>ID = [], NetworkSSID = [], NetworkPassword = [], DatabaseTableName = [],
      RemoteIP = [], RemoteDir = [], RemotePort = 0, HostName = [],
      Ports = [], Sensors = []\<rparr>"

section \<open>The sensor registry\<close>

text \<open>
  An \<^verbatim>\<open>int\<close> used as a \<^verbatim>\<open>size_t\<close> (a parameter of that type, or the index of
  \<^verbatim>\<open>operator[]\<close>) converts modulo \<open>2 ^ 32\<close> on the 32-bit target.
\<close>

definition to_size_t :: "int \<Rightarrow> nat" where
  "to_size_t i = nat (i mod 2 ^ 32)"

definition setUnitMultiplier :: "SensorInfo list \<Rightarrow> nat \<Rightarrow> real" where
  "setUnitMultiplier sensors Sens_ID =
     (if Sens_ID \<ge> length sensors then 0
      else SensorInfo.Multiplier (sensors ! Sens_ID))"

definition getSensorName :: "SensorInfo list \<Rightarrow> nat \<Rightarrow> string" where
  "getSensorName sensors Sens_ID =
     (if Sens_ID \<ge> length sensors then ''No Sensor''
      else Type (sensors ! Sens_ID) @ '' in '' @ Unit (sensors ! Sens_ID))"

text \<open>
  \<^verbatim>\<open>setBoundsFromID\<close> indexes the vector with no check of the index, so an index beyond
  the end of the vector is a fault, and it assigns the same field twice.
\<close>

definition setBoundsFromID :: "PortInfo \<Rightarrow> SensorInfo list \<Rightarrow> fault + PortInfo" where
  "setBoundsFromID input sensors =
     (if to_size_t (SensorID input) < length sensors then
        Inr (input
          \<lparr>RangeEnd := SensorInfo.RangeEnd (sensors ! to_size_t (SensorID input))\<rparr>
          \<lparr>RangeEnd := SensorInfo.RangeEnd (sensors ! to_size_t (SensorID input))\<rparr>)
      else Inl OutOfBounds)"

section \<open>The configuration parser\<close>

text \<open>
  One call of \<^verbatim>\<open>strtok\<close> whose result is used as a C string (converted to a
  \<^verbatim>\<open>std::string\<close>, passed to \<^verbatim>\<open>atoi\<close> or \<^verbatim>\<open>atof\<close>, or indexed): the null pointer is a
  fault, a token goes to the rest of the block together with the text that is left.
\<close>

definition next_token ::
  "string \<Rightarrow> string \<Rightarrow> (string \<Rightarrow> string \<Rightarrow> fault + 'a) \<Rightarrow> fault + 'a" where
  "next_token delims rest k =
     (case strtok delims rest of
        (None, _) \<Rightarrow> Inl NullPointer
      | (Some tok, rest') \<Rightarrow> k tok rest')"

text \<open>The body of the first loop for a sensor line: the first token is dropped unread.\<close>

definition readSensorLine :: "string \<Rightarrow> fault + SensorInfo" where
  "readSensorLine Buffer =
     next_token '','' (snd (strtok '':'' Buffer)) (\<lambda>type r1.
     next_token '','' r1 (\<lambda>unit r2.
     next_token '','' r2 (\<lambda>mult r3.
     next_token '','' r3 (\<lambda>rstart r4.
     next_token [newline] r4 (\<lambda>rend r5.
       Inr \<lparr>Type = type, Unit = unit, SensorInfo.Multiplier = atof mult,
            RangeStart = atof rstart, SensorInfo.RangeEnd = atof rend\<rparr>)))))"

fun readSensors :: "string list \<Rightarrow> SensorInfo list \<Rightarrow> fault + SensorInfo list" where
  "readSensors [] sensors = Inr sensors"
| "readSensors (b # bs) sensors =
     (if strstr (cstr b) ''SensorID'' \<and> first_is CHR ''S'' (cstr b) then
        (case readSensorLine (cstr b) of
           Inl f \<Rightarrow> Inl f
         | Inr tmp \<Rightarrow> readSensors bs (sensors @ [tmp]))
      else readSensors bs sensors)"

text \<open>The \<^verbatim>\<open>ConnInfo\<close> block of the second loop.\<close>

definition readConnLine :: "BoardSpecs \<Rightarrow> string \<Rightarrow> fault + BoardSpecs" where
  "readConnLine Specs Buffer =
     next_token '':'' (snd (strtok '':'' Buffer)) (\<lambda>ip r1.
     next_token '':'' r1 (\<lambda>tmp r2.
     next_token '':'' r2 (\<lambda>host r3.
     next_token [newline] r3 (\<lambda>dir r4.
       Inr (Specs\<lparr>RemoteIP := ip,
                  RemotePort := (if isdigit (hd tmp) then atoi tmp else 0),
                  HostName := host,
                  RemoteDir := dir\<rparr>)))))"

text \<open>The \<^verbatim>\<open>Board\<close> block: four tokens, the first one included.\<close>

definition readBoardLine :: "BoardSpecs \<Rightarrow> string \<Rightarrow> fault + BoardSpecs" where
  "readBoardLine Specs Buffer =
     next_token '':'' Buffer (\<lambda>id r1.
     next_token '':'' r1 (\<lambda>ssid r2.
     next_token '':'' r2 (\<lambda>pass r3.
     next_token '':'' r3 (\<lambda>table r4.
       Inr (Specs\<lparr>ID := id, NetworkSSID := ssid, NetworkPassword := pass,
                  DatabaseTableName := table\<rparr>)))))"

text \<open>\<^verbatim>\<open>Name.find_first_of(c)\<close>: the first position of the character, \<open>None\<close> for \<^verbatim>\<open>npos\<close>.\<close>

fun find_first_of :: "string \<Rightarrow> char \<Rightarrow> nat option" where
  "find_first_of [] c = None"
| "find_first_of (x # xs) c =
     (if x = c then Some 0 else map_option Suc (find_first_of xs c))"

text \<open>
  The loop that strips the name. \<^verbatim>\<open>Name.erase(SpaceDex)\<close> has one argument: it erases
  from that position to the end of the string.
\<close>

function erase_spaces :: "string \<Rightarrow> string" where
  "erase_spaces name =
     (case find_first_of name CHR '' '' of
        None \<Rightarrow> name
      | Some SpaceDex \<Rightarrow> erase_spaces (take SpaceDex name))"
  by pat_completeness auto
termination
proof (relation "measure length")
  show "wf (measure length)" by simp
next
  fix name :: string and SpaceDex :: nat
  assume "find_first_of name CHR '' '' = Some SpaceDex"
  then have "SpaceDex < length name"
    by (induction name arbitrary: SpaceDex) (auto split: if_splits)
  then show "(take SpaceDex name, name) \<in> measure length" by simp
qed

declare erase_spaces.simps [simp del]

text \<open>
  The port block of the second loop, up to the test that decides whether the port is
  stored (the counter \<^verbatim>\<open>prtCnt\<close> is never read).
\<close>

definition readPortInfo :: "SensorInfo list \<Rightarrow> string \<Rightarrow> fault + PortInfo" where
  "readPortInfo sensors Buffer =
     next_token '':'' Buffer (\<lambda>name r1.
     next_token [newline] r1 (\<lambda>id r2.
       (let tmp = PortInfo_new\<lparr>Name := name, SensorID := atoi id\<rparr>;
            tmp = tmp\<lparr>Name := erase_spaces (Name tmp)\<rparr>;
            tmp = tmp\<lparr>Multiplier := setUnitMultiplier sensors (to_size_t (SensorID tmp))\<rparr>;
            tmp = tmp\<lparr>Description := getSensorName sensors (to_size_t (SensorID tmp))\<rparr>
        in setBoundsFromID tmp sensors)))"

text \<open>The port is stored only if its multiplier is not zero.\<close>

definition readPortLine :: "BoardSpecs \<Rightarrow> string \<Rightarrow> fault + BoardSpecs" where
  "readPortLine Specs Buffer =
     (case readPortInfo (Sensors Specs) Buffer of
        Inl f \<Rightarrow> Inl f
      | Inr tmp \<Rightarrow>
          Inr (if Multiplier tmp \<noteq> 0
               then Specs\<lparr>Ports := Ports Specs @ [tmp]\<rparr>
               else Specs))"

text \<open>
  The body of the second loop. \<^verbatim>\<open>strtok\<close> overwrites delimiters of the buffer, never its
  first character, and a buffer that went through the \<^verbatim>\<open>ConnInfo\<close> block starts with
  \<open>C\<close>: the two tests after it fail on it whatever the rest of the buffer holds.
\<close>

definition readConfigLine :: "BoardSpecs \<Rightarrow> string \<Rightarrow> fault + BoardSpecs" where
  "readConfigLine Specs Buffer =
     (case (if first_is CHR ''C'' Buffer \<and> strstr Buffer ''ConnInfo''
            then readConnLine Specs Buffer else Inr Specs) of
        Inl f \<Rightarrow> Inl f
      | Inr Specs \<Rightarrow>
          if first_is CHR ''B'' Buffer \<and> strstr Buffer ''Board'' then readBoardLine Specs Buffer
          else if first_is CHR ''P'' Buffer then readPortLine Specs Buffer
          else Inr Specs)"

fun readRecords :: "string list \<Rightarrow> BoardSpecs \<Rightarrow> fault + BoardSpecs" where
  "readRecords [] Specs = Inr Specs"
| "readRecords (b # bs) Specs =
     (case readConfigLine Specs (cstr b) of
        Inl f \<Rightarrow> Inl f
      | Inr Specs' \<Rightarrow> readRecords bs Specs')"

text \<open>
  \<^verbatim>\<open>readConfigText\<close>: the file is read twice, first for the sensor catalog, then for
  everything else. \<^verbatim>\<open>BUFFLEN\<close> is a macro of a header that is not under src/: a parameter.
\<close>

definition readConfigText :: "nat \<Rightarrow> string \<Rightarrow> fault + BoardSpecs" where
  "readConfigText BUFFLEN file =
     (case readSensors (fgets_loop BUFFLEN file) [] of
        Inl f \<Rightarrow> Inl f
      | Inr sensors \<Rightarrow>
          readRecords (fgets_loop BUFFLEN file) (BoardSpecs_new\<lparr>Sensors := sensors\<rparr>))"

section \<open>The control loop\<close>

text \<open>
  \<^verbatim>\<open>WIFITRIES\<close> and \<^verbatim>\<open>NETWORKSUCCESS\<close> are macros of headers that are not under src/:
  parameters of the model.
\<close>

record Macros =
  WIFITRIES :: int
  NETWORKSUCCESS :: int

text \<open>One entry of the backup file: the ports, with their values, of one cycle.\<close>

type_synonym entry = "PortInfo list"

text \<open>
  The calls that the loop makes to the network, to the backup file and to the watchdog,
  in the order it makes them, with what the call returned.
\<close>

datatype event =
    Connect int
  | SendBackup entry int real
  | DeleteEntry entry
  | SendBulk entry int real
  | Dump entry
  | Watchdog real

text \<open>The variables of \<^verbatim>\<open>main\<close> that live across cycles, the backup file and the calls made.\<close>

record LoopState =
  Specs :: BoardSpecs
  PollingInterval :: real
  OfflineMode :: bool
  wifi_tries :: int
  wifi_err :: int
  backup :: "entry list"
  calls :: "event list"

text \<open>
  What the outside world answers during one cycle: the analog inputs, the two
  connection checks, the connection attempt, the timer at each test of the draining loop,
  and the status and the interval (the reference parameter \<^verbatim>\<open>tmp\<close>) that each send leaves.
\<close>

record Env =
  analog :: "nat \<Rightarrow> real"
  connected_first :: bool
  connect_reply :: int
  connected_second :: bool
  timer :: "nat \<Rightarrow> real"
  backup_reply :: "nat \<Rightarrow> int \<times> real"
  bulk_reply :: "int \<times> real"

text \<open>
  Modelled from the spec: \<^verbatim>\<open>OfflineLogging.cpp\<close> is not under src/. The backup store is a
  queue: \<^verbatim>\<open>dumpSensorDataToFile\<close> appends the current readings, \<^verbatim>\<open>checkForBackupFile\<close>
  tells whether there is a backlog, \<^verbatim>\<open>sendBackupDataTCP\<close> sends the oldest entry and
  \<^verbatim>\<open>deleteDataEntry\<close> deletes the oldest entry.
\<close>

definition checkForBackupFile :: "LoopState \<Rightarrow> bool" where
  "checkForBackupFile st = (backup st \<noteq> [])"

definition deleteDataEntry :: "LoopState \<Rightarrow> LoopState" where
  "deleteDataEntry st =
     st\<lparr>backup := tl (backup st), calls := calls st @ [DeleteEntry (hd (backup st))]\<rparr>"

definition dumpSensorDataToFile :: "LoopState \<Rightarrow> LoopState" where
  "dumpSensorDataToFile st =
     st\<lparr>backup := backup st @ [Ports (Specs st)],
        calls := calls st @ [Dump (Ports (Specs st))]\<rparr>"

text \<open>
  The body of the sampling loop for port \<open>i\<close>. \<^verbatim>\<open>Port\<close> is an array of 10 analog inputs.
\<close>

definition readPort :: "Env \<Rightarrow> nat \<Rightarrow> LoopState \<Rightarrow> fault + LoopState" where
  "readPort env i st =
     (if i \<ge> length (Ports (Specs st)) then Inl OutOfBounds
      else if Multiplier (Ports (Specs st) ! i) \<noteq> 0 then
        (if i \<ge> 10 then Inl OutOfBounds
         else
           (let p = Ports (Specs st) ! i;
                v = analog env i * Multiplier p;
                p = p\<lparr>Value :=
                       (if v > RangeCeiling p then PlusHuge
                        else if v < RangeFloor p then MinusHuge
                        else Finite v)\<rparr>
            in Inr (st\<lparr>Specs := (Specs st)\<lparr>Ports := (Ports (Specs st))[i := p]\<rparr>,
                        calls := calls st @ [Watchdog (PollingInterval st * 5)]\<rparr>)))
      else Inr st)"

text \<open>\<^verbatim>\<open>for (size_t i = 0; i < NumPorts; ++i)\<close>, from \<open>i\<close> on.\<close>

function readAllPorts :: "Env \<Rightarrow> nat \<Rightarrow> nat \<Rightarrow> LoopState \<Rightarrow> fault + LoopState" where
  "readAllPorts env i NumPorts st =
     (if i < NumPorts then
        (case readPort env i st of
           Inl f \<Rightarrow> Inl f
         | Inr st' \<Rightarrow> readAllPorts env (Suc i) NumPorts st')
      else Inr st)"
  by pat_completeness auto
termination
  by (relation "measure (\<lambda>(env, i, NumPorts, st). NumPorts - i)") auto

declare readAllPorts.simps [simp del]

text \<open>A send leaves an interval in \<^verbatim>\<open>tmp\<close>: \<^verbatim>\<open>if (tmp != -1.0f && tmp > 0.0f)\<close>.\<close>

definition setInterval :: "real \<Rightarrow> LoopState \<Rightarrow> LoopState" where
  "setInterval tmp st = (if tmp \<noteq> - 1 \<and> tmp > 0 then st\<lparr>PollingInterval := tmp\<rparr> else st)"

text \<open>The connection attempt of a cycle that starts without a connection.\<close>

definition reconnect :: "Macros \<Rightarrow> Env \<Rightarrow> LoopState \<Rightarrow> LoopState" where
  "reconnect M env st =
     (let st = st\<lparr>wifi_err := connect_reply env,
                  calls := calls st @ [Connect (connect_reply env)]\<rparr>
      in if wifi_err st \<noteq> NETWORKSUCCESS M then
           (let st = st\<lparr>wifi_tries := wifi_tries st - 1\<rparr>
            in if wifi_tries st \<le> 0 then st\<lparr>OfflineMode := True\<rparr> else st)
         else st\<lparr>wifi_tries := WIFITRIES M\<rparr>)"

text \<open>
  The loop that sends the backlog, from its \<open>k\<close>-th test on: it runs while the timer is
  within the interval and there is a backlog, and a failed send breaks out of it.
\<close>

definition sendBackup :: "Env \<Rightarrow> nat \<Rightarrow> LoopState \<Rightarrow> LoopState" where
  "sendBackup env k st =
     setInterval (snd (backup_reply env k))
       (st\<lparr>wifi_err := fst (backup_reply env k),
           calls := calls st @
             [SendBackup (hd (backup st)) (fst (backup_reply env k)) (snd (backup_reply env k))]\<rparr>)"

function drain :: "Macros \<Rightarrow> Env \<Rightarrow> nat \<Rightarrow> LoopState \<Rightarrow> LoopState" where
  "drain M env k st =
     (if timer env k \<le> PollingInterval st \<and> checkForBackupFile st then
        (if wifi_err (sendBackup env k st) \<noteq> NETWORKSUCCESS M then sendBackup env k st
         else drain M env (Suc k) (deleteDataEntry (sendBackup env k st)))
      else st)"
  by pat_completeness auto
termination
  by (relation "measure (\<lambda>(M, env, k, st). length (backup st))")
     (auto simp: checkForBackupFile_def deleteDataEntry_def sendBackup_def setInterval_def)

declare drain.simps [simp del]

text \<open>The current readings are sent once the backlog is empty, and stored otherwise.\<close>

definition sendBulk :: "Macros \<Rightarrow> Env \<Rightarrow> LoopState \<Rightarrow> LoopState" where
  "sendBulk M env st =
     (let st = setInterval (snd (bulk_reply env))
                 (st\<lparr>wifi_err := fst (bulk_reply env),
                     calls := calls st @
                       [SendBulk (Ports (Specs st)) (fst (bulk_reply env)) (snd (bulk_reply env))]\<rparr>)
      in if wifi_err st \<noteq> NETWORKSUCCESS M then dumpSensorDataToFile st else st)"

definition transmit :: "Macros \<Rightarrow> Env \<Rightarrow> LoopState \<Rightarrow> LoopState" where
  "transmit M env st =
     (if \<not> OfflineMode st then
        (let st = (if \<not> connected_first env then reconnect M env st else st)
         in if connected_second env then
              (let st = drain M env 0 st
               in if \<not> checkForBackupFile st then sendBulk M env st
                  else dumpSensorDataToFile st)
            else dumpSensorDataToFile st)
      else dumpSensorDataToFile st)"

text \<open>
  One turn of \<^verbatim>\<open>while (true)\<close>. \<^verbatim>\<open>NumPorts\<close> is the size of the port vector, which no
  statement of the loop changes. The wait that ends the turn changes no variable.
\<close>

definition cycle :: "Macros \<Rightarrow> Env \<Rightarrow> LoopState \<Rightarrow> fault + LoopState" where
  "cycle M env st =
     (case readAllPorts env 0 (length (Ports (Specs st))) st of
        Inl f \<Rightarrow> Inl f
      | Inr st' \<Rightarrow> Inr (transmit M env st'))"

text \<open>The first cycles of the run, one environment each.\<close>

fun run :: "Macros \<Rightarrow> Env list \<Rightarrow> LoopState \<Rightarrow> fault + LoopState" where
  "run M [] st = Inr st"
| "run M (env # envs) st =
     (case cycle M env st of
        Inl f \<Rightarrow> Inl f
      | Inr st' \<Rightarrow> run M envs st')"

text \<open>
  What \<^verbatim>\<open>main\<close> does before the loop, once the file system is mounted and the
  configuration is read: the answers of the modem and the configuration decide the mode,
  and a first connection is attempted.
\<close>

record BootEnv =
  esp_reply :: int
  boot_connected :: bool
  boot_connect_reply :: int

definition startup :: "Macros \<Rightarrow> BootEnv \<Rightarrow> BoardSpecs \<Rightarrow> entry list \<Rightarrow> LoopState" where
  "startup M benv S file =
     (let offline =
            (esp_reply benv \<noteq> NETWORKSUCCESS M
             \<or> DatabaseTableName S = [] \<or> DatabaseTableName S = '' ''
             \<or> RemoteDir S = '' '' \<or> RemoteDir S = []
             \<or> RemoteIP S = '' '' \<or> RemoteIP S = []
             \<or> RemotePort S = 0
             \<or> HostName S = [] \<or> HostName S = '' '');
          attempt = (\<not> offline \<and> \<not> boot_connected benv);
          err = (if attempt then boot_connect_reply benv else NETWORKSUCCESS M)
      in \<lparr>Specs = S, PollingInterval = 5, OfflineMode = offline,
          wifi_tries = (if \<not> offline \<and> err \<noteq> NETWORKSUCCESS M
                        then WIFITRIES M - 1 else WIFITRIES M),
          wifi_err = err, backup = file,
          calls = (if attempt then [Connect (boot_connect_reply benv)] else [])\<rparr>)"

section \<open>Notions used to state the properties\<close>

text \<open>A call that stays on the board: a store to the backup file, or the watchdog.\<close>

fun local_call :: "event \<Rightarrow> bool" where
  "local_call (Dump e) = True"
| "local_call (Watchdog d) = True"
| "local_call ev = False"

text \<open>
  The interval after a send, as the specification states it: the interval that the send
  returned is adopted when it is strictly positive.
\<close>

definition adopt_override :: "real \<Rightarrow> real \<Rightarrow> real" where
  "adopt_override p t = (if 0 < t then t else p)"

text \<open>
  The draining of the backlog, as the specification states it, on the number of buffered
  entries and the polling interval alone: while the timer is within the interval and an
  entry is left, the oldest entry is sent and the interval of the reply adopted; a
  successful send removes the entry, a failed one ends the draining. The result is the
  number of entries left and the polling interval. The timer and the replies are those of
  the environment, from the \<open>k\<close>-th turn on.
\<close>

fun drain_outcome ::
  "int \<Rightarrow> (nat \<Rightarrow> real) \<Rightarrow> (nat \<Rightarrow> int \<times> real) \<Rightarrow> nat \<Rightarrow> nat \<Rightarrow> real \<Rightarrow> nat \<times> real" where
  "drain_outcome ok tm reply k 0 p = (0, p)"
| "drain_outcome ok tm reply k (Suc n) p =
     (if tm k \<le> p then
        (if fst (reply k) = ok
         then drain_outcome ok tm reply (Suc k) n (adopt_override p (snd (reply k)))
         else (Suc n, adopt_override p (snd (reply k))))
      else (Suc n, p))"

text \<open>The calls of a draining loop that sent and then deleted the given entries.\<close>

fun acknowledged :: "int \<Rightarrow> (entry \<times> real) list \<Rightarrow> event list" where
  "acknowledged ok [] = []"
| "acknowledged ok ((e, t) # sent) = SendBackup e ok t # DeleteEntry e # acknowledged ok sent"

subsection \<open>Example data\<close>

definition example_sensors :: "SensorInfo list" where
  "example_sensors =
     [\<lparr>Type = ''Voltage'', Unit = ''V'', SensorInfo.Multiplier = 1 / 100,
       RangeStart = 0, SensorInfo.RangeEnd = 500\<rparr>]"

definition example_specs :: BoardSpecs where
  "example_specs = BoardSpecs_new\<lparr>Sensors := example_sensors\<rparr>"

definition example_port :: "string \<Rightarrow> PortInfo" where
  "example_port name =
     \<lparr>Name = name, SensorID = 0, Multiplier = 1 / 100, Description = ''Voltage in V'',
      RangeFloor = 0, RangeCeiling = 0, RangeEnd = 500, Value = Finite 0\<rparr>"

text \<open>A sensor line and eleven port lines that refer to it.\<close>

definition eleven_ports :: string where
  "eleven_ports =
     ''SensorID:Voltage,V,0.01,0,500'' @ [newline] @
     concat (replicate 11 (''P:0'' @ [newline]))"

text \<open>A port with the range 0 to 500 and a given multiplier.\<close>

definition ranged_port :: "real \<Rightarrow> PortInfo" where
  "ranged_port m =
     \<lparr>Name = ''P'', SensorID = 0, Multiplier = m, Description = ''Voltage in V'',
      RangeFloor = 0, RangeCeiling = 500, RangeEnd = 500, Value = Finite 0\<rparr>"

definition example_macros :: Macros where
  "example_macros = \<lparr>WIFITRIES = 3, NETWORKSUCCESS = 0\<rparr>"

text \<open>
  A state with three ports, whose samples below scale to 600, -5 and 250, an empty backup
  file and one connection attempt left.
\<close>

definition example_state :: LoopState where
  "example_state =
     \<lparr>Specs = BoardSpecs_new\<lparr>Ports := [ranged_port 1000, ranged_port (- 10), ranged_port 500]\<rparr>,
      PollingInterval = 5, OfflineMode = False, wifi_tries = 1, wifi_err = 0,
      backup = [], calls = []\<rparr>"

text \<open>
  A cycle in which the board is connected and every send succeeds and returns the
  interval 10.
\<close>

definition example_env :: Env where
  "example_env =
     \<lparr>analog = (\<lambda>i. if i = 0 then 3 / 5 else 1 / 2),
      connected_first = True, connect_reply = 0, connected_second = True,
      timer = (\<lambda>k. 0), backup_reply = (\<lambda>k. (0, 10)), bulk_reply = (0, 10)\<rparr>"

section \<open>Properties of the parser\<close>

subsection \<open>Tokens\<close>




subsection \<open>The loop that strips the name cuts it at its first space\<close>

lemma find_first_of_None: "(find_first_of xs c = None) = (c \<notin> set xs)"
  by (induction xs) auto

lemma find_first_of_take:
  "find_first_of xs c = Some i \<Longrightarrow> take i xs = takeWhile (\<lambda>x. x \<noteq> c) xs"
  by (induction xs arbitrary: i) (auto split: if_splits)

lemma erase_spaces_eq: "erase_spaces name = takeWhile (\<lambda>c. c \<noteq> CHR '' '') name"
proof (induction name rule: erase_spaces.induct)
  case (1 name)
  show ?case
  proof (cases "find_first_of name CHR '' ''")
    case None
    then have "CHR '' '' \<notin> set name" by (simp add: find_first_of_None)
    then have tw: "takeWhile (\<lambda>c. c \<noteq> CHR '' '') name = name"
      by auto
    show ?thesis by (simp only: erase_spaces.simps [of name] None tw option.case)
  next
    case (Some i)
    have tk: "take i name = takeWhile (\<lambda>c. c \<noteq> CHR '' '') name"
      using Some by (rule find_first_of_take)
    have "erase_spaces name = erase_spaces (take i name)"
      using Some by (simp add: erase_spaces.simps [of name])
    also have "\<dots> = takeWhile (\<lambda>c. c \<noteq> CHR '' '') (take i name)"
      using "1.IH" [OF Some] .
    also have "\<dots> = takeWhile (\<lambda>c. c \<noteq> CHR '' '') name"
      by (simp add: tk)
    finally show ?thesis .
  qed
qed

subsection \<open>What a port line builds\<close>




lemma readPortLine_Inr:
  assumes "readPortLine S Buffer = Inr S'"
  obtains tmp where "readPortInfo (Sensors S) Buffer = Inr tmp"
    and "S' = (if Multiplier tmp \<noteq> 0 then S\<lparr>Ports := Ports S @ [tmp]\<rparr> else S)"
  using assms by (auto simp: readPortLine_def split: sum.splits)

section \<open>Claims about the parser\<close>

text \<open>
  C1. The claim: the bounds \<^verbatim>\<open>RangeFloor\<close> and \<^verbatim>\<open>RangeCeiling\<close> of every retained port are
  copied from \<^verbatim>\<open>RangeStart\<close> and \<^verbatim>\<open>RangeEnd\<close> of its sensor. The code does not do that: on
  a sensor with the range 10 to 500 and a port that refers to it, the retained port has
  \<^verbatim>\<open>RangeFloor\<close> 0 and \<^verbatim>\<open>RangeCeiling\<close> 0, the values of a fresh port; \<^verbatim>\<open>setBoundsFromID\<close>
  wrote the upper bound of the sensor, twice, to the field \<^verbatim>\<open>RangeEnd\<close>.
\<close>

theorem C1_bounds_not_copied:
  "readConfigText 1024
     (''SensorID:Voltage,V,0.01,10,500'' @ [newline] @ ''P Main:0'' @ [newline]) =
   Inr \<lparr>ID = [], NetworkSSID = [], NetworkPassword = [], DatabaseTableName = [],
        RemoteIP = [], RemoteDir = [], RemotePort = 0, HostName = [],
        Ports =
          [\<lparr>Name = ''P'', SensorID = 0, Multiplier = 1 / 100,
            Description = ''Voltage in V'', RangeFloor = 0, RangeCeiling = 0,
            RangeEnd = 500, Value = Finite 0\<rparr>],
        Sensors =
          [\<lparr>Type = ''Voltage'', Unit = ''V'', SensorInfo.Multiplier = 1 / 100,
            RangeStart = 10, SensorInfo.RangeEnd = 500\<rparr>]\<rparr>"
  by code_simp

text \<open>
  C2. The claim: parsing completes on every text, a line that lacks a field is skipped,
  and a port line whose sensor index does not resolve causes no access out of bounds. The
  code does not do that: a port line with the index 5 and no sensor makes
  \<^verbatim>\<open>setBoundsFromID\<close> read the sixth element of an empty vector, and a port line with no
  colon passes a null pointer to \<^verbatim>\<open>atoi\<close>.
\<close>

theorem C2_malformed_line_faults:
  "readConfigText 1024 (''P Main:5'' @ [newline]) = Inl OutOfBounds \<and>
   readConfigText 1024 (''P Main'' @ [newline]) = Inl NullPointer"
  by code_simp




text \<open>
  C7. The claim: the name of a port is the text of its line up to the first colon with
  all embedded white space removed. The code does not do that: the loop that strips the
  name calls \<^verbatim>\<open>Name.erase(SpaceDex)\<close>, which erases from the first space to the end of the
  string, so the name is cut at its first space. After a valid sensor line, the port line
  \<^verbatim>\<open>P Main:0\<close> yields a retained port named \<^verbatim>\<open>P\<close>, and the port line \<^verbatim>\<open>Port 1:0\<close> one named
  \<^verbatim>\<open>Port\<close>.
\<close>

theorem C7_name_cut_at_first_space:
  "readConfigText 1024
     (''SensorID:Voltage,V,0.01,0,500'' @ [newline] @ ''P Main:0'' @ [newline]) =
   Inr \<lparr>ID = [], NetworkSSID = [], NetworkPassword = [], DatabaseTableName = [],
        RemoteIP = [], RemoteDir = [], RemotePort = 0, HostName = [],
        Ports =
          [\<lparr>Name = ''P'', SensorID = 0, Multiplier = 1 / 100,
            Description = ''Voltage in V'', RangeFloor = 0, RangeCeiling = 0,
            RangeEnd = 500, Value = Finite 0\<rparr>],
        Sensors =
          [\<lparr>Type = ''Voltage'', Unit = ''V'', SensorInfo.Multiplier = 1 / 100,
            RangeStart = 0, SensorInfo.RangeEnd = 500\<rparr>]\<rparr> \<and>
   readConfigText 1024
     (''SensorID:Voltage,V,0.01,0,500'' @ [newline] @ ''Port 1:0'' @ [newline]) =
   Inr \<lparr>ID = [], NetworkSSID = [], NetworkPassword = [], DatabaseTableName = [],
        RemoteIP = [], RemoteDir = [], RemotePort = 0, HostName = [],
        Ports =
          [\<lparr>Name = ''Port'', SensorID = 0, Multiplier = 1 / 100,
            Description = ''Voltage in V'', RangeFloor = 0, RangeCeiling = 0,
            RangeEnd = 500, Value = Finite 0\<rparr>],
        Sensors =
          [\<lparr>Type = ''Voltage'', Unit = ''V'', SensorInfo.Multiplier = 1 / 100,
            RangeStart = 0, SensorInfo.RangeEnd = 500\<rparr>]\<rparr>"
  by code_simp




section \<open>Properties of the control loop\<close>

subsection \<open>Sampling\<close>

lemma readPort_fields:
  assumes "readPort env i st = Inr st'"
  shows "PollingInterval st' = PollingInterval st" and "OfflineMode st' = OfflineMode st"
    and "wifi_tries st' = wifi_tries st" and "wifi_err st' = wifi_err st"
    and "backup st' = backup st"
    and "length (Ports (Specs st')) = length (Ports (Specs st))"
  using assms by (auto simp: readPort_def Let_def split: if_splits)

lemma readPort_calls:
  assumes "readPort env i st = Inr st'"
  shows "\<exists>k. calls st' = calls st @ replicate k (Watchdog (PollingInterval st * 5))"
proof (cases "Multiplier (Ports (Specs st) ! i) \<noteq> 0")
  case True
  then have "calls st' = calls st @ replicate 1 (Watchdog (PollingInterval st * 5))"
    using assms by (auto simp: readPort_def Let_def split: if_splits)
  then show ?thesis by blast
next
  case False
  then have "calls st' = calls st @ replicate 0 (Watchdog (PollingInterval st * 5))"
    using assms by (auto simp: readPort_def Let_def split: if_splits)
  then show ?thesis by blast
qed

lemma readPort_nth:
  assumes "readPort env i st = Inr st'" and "j < length (Ports (Specs st))"
  shows "Ports (Specs st') ! j =
         (if j = i \<and> Multiplier (Ports (Specs st) ! j) \<noteq> 0
          then (Ports (Specs st) ! j)
                 \<lparr>Value :=
                    (if analog env j * Multiplier (Ports (Specs st) ! j)
                          > RangeCeiling (Ports (Specs st) ! j) then PlusHuge
                     else if analog env j * Multiplier (Ports (Specs st) ! j)
                          < RangeFloor (Ports (Specs st) ! j) then MinusHuge
                     else Finite (analog env j * Multiplier (Ports (Specs st) ! j)))\<rparr>
          else Ports (Specs st) ! j)"
  using assms by (auto simp: readPort_def Let_def nth_list_update split: if_splits)

lemma readAllPorts_fields:
  "readAllPorts env i n st = Inr st' \<Longrightarrow>
   PollingInterval st' = PollingInterval st \<and> OfflineMode st' = OfflineMode st \<and>
   wifi_tries st' = wifi_tries st \<and> wifi_err st' = wifi_err st \<and>
   backup st' = backup st \<and>
   length (Ports (Specs st')) = length (Ports (Specs st))"
proof (induction env i n st rule: readAllPorts.induct)
  case (1 env i n st)
  show ?case
  proof (cases "i < n")
    case False
    with "1.prems" show ?thesis by (simp add: readAllPorts.simps [of env i n st])
  next
    case True
    then obtain st1 where st1: "readPort env i st = Inr st1"
      and rest: "readAllPorts env (Suc i) n st1 = Inr st'"
      using "1.prems" by (auto simp: readAllPorts.simps [of env i n st] split: sum.splits)
    from "1.IH" [OF True st1 rest] readPort_fields [OF st1] show ?thesis by simp
  qed
qed

lemma readAllPorts_calls:
  "readAllPorts env i n st = Inr st' \<Longrightarrow>
   \<exists>k. calls st' = calls st @ replicate k (Watchdog (PollingInterval st * 5))"
proof (induction env i n st rule: readAllPorts.induct)
  case (1 env i n st)
  show ?case
  proof (cases "i < n")
    case False
    with "1.prems" have "calls st' = calls st @ replicate 0 (Watchdog (PollingInterval st * 5))"
      by (simp add: readAllPorts.simps [of env i n st])
    then show ?thesis by blast
  next
    case True
    then obtain st1 where st1: "readPort env i st = Inr st1"
      and rest: "readAllPorts env (Suc i) n st1 = Inr st'"
      using "1.prems" by (auto simp: readAllPorts.simps [of env i n st] split: sum.splits)
    obtain k1 where k1: "calls st1 = calls st @ replicate k1 (Watchdog (PollingInterval st * 5))"
      using readPort_calls [OF st1] by blast
    obtain k2 where k2: "calls st' = calls st1 @ replicate k2 (Watchdog (PollingInterval st1 * 5))"
      using "1.IH" [OF True st1 rest] by blast
    have "calls st' = calls st @ replicate (k1 + k2) (Watchdog (PollingInterval st * 5))"
      using k1 k2 readPort_fields(1) [OF st1] by (simp add: replicate_add)
    then show ?thesis by blast
  qed
qed

lemma readAllPorts_nth:
  "readAllPorts env i n st = Inr st' \<Longrightarrow> j < length (Ports (Specs st)) \<Longrightarrow>
   Ports (Specs st') ! j =
     (if i \<le> j \<and> j < n \<and> Multiplier (Ports (Specs st) ! j) \<noteq> 0
      then (Ports (Specs st) ! j)
             \<lparr>Value :=
                (if analog env j * Multiplier (Ports (Specs st) ! j)
                      > RangeCeiling (Ports (Specs st) ! j) then PlusHuge
                 else if analog env j * Multiplier (Ports (Specs st) ! j)
                      < RangeFloor (Ports (Specs st) ! j) then MinusHuge
                 else Finite (analog env j * Multiplier (Ports (Specs st) ! j)))\<rparr>
      else Ports (Specs st) ! j)"
proof (induction env i n st rule: readAllPorts.induct)
  case (1 env i n st)
  show ?case
  proof (cases "i < n")
    case False
    with "1.prems" have "st' = st" by (simp add: readAllPorts.simps [of env i n st])
    with False show ?thesis by auto
  next
    case True
    then obtain st1 where st1: "readPort env i st = Inr st1"
      and rest: "readAllPorts env (Suc i) n st1 = Inr st'"
      using "1.prems" by (auto simp: readAllPorts.simps [of env i n st] split: sum.splits)
    have len: "j < length (Ports (Specs st1))"
      using readPort_fields(6) [OF st1] "1.prems"(2) by simp
    note step = readPort_nth [OF st1 "1.prems"(2)]
    note later = "1.IH" [OF True st1 rest len]
    show ?thesis
    proof (cases "j = i")
      case True
      with step later \<open>i < n\<close> show ?thesis by simp
    next
      case False
      with step later show ?thesis by auto
    qed
  qed
qed

subsection \<open>The network part leaves the ports alone\<close>

lemma Specs_setInterval [simp]: "Specs (setInterval t st) = Specs st"
  by (simp add: setInterval_def)

lemma Specs_sendBackup [simp]: "Specs (sendBackup env k st) = Specs st"
  by (simp add: sendBackup_def)

lemma Specs_deleteDataEntry [simp]: "Specs (deleteDataEntry st) = Specs st"
  by (simp add: deleteDataEntry_def)

lemma Specs_dumpSensorDataToFile [simp]: "Specs (dumpSensorDataToFile st) = Specs st"
  by (simp add: dumpSensorDataToFile_def)

lemma Specs_reconnect [simp]: "Specs (reconnect M env st) = Specs st"
  by (simp add: reconnect_def Let_def)

lemma Specs_drain [simp]: "Specs (drain M env k st) = Specs st"
proof (induction M env k st rule: drain.induct)
  case (1 M env k st)
  show ?case
  proof (cases "timer env k \<le> PollingInterval st \<and> checkForBackupFile st")
    case False
    then have "drain M env k st = st" by (auto simp: drain.simps [of M env k st])
    then show ?thesis by simp
  next
    case True
    show ?thesis
    proof (cases "wifi_err (sendBackup env k st) \<noteq> NETWORKSUCCESS M")
      case yes: True
      with True have "drain M env k st = sendBackup env k st"
        by (simp add: drain.simps [of M env k st])
      then show ?thesis by simp
    next
      case no: False
      with True have "drain M env k st = drain M env (Suc k) (deleteDataEntry (sendBackup env k st))"
        by (simp add: drain.simps [of M env k st])
      with "1.IH" [OF True no] show ?thesis by simp
    qed
  qed
qed

lemma Specs_sendBulk [simp]: "Specs (sendBulk M env st) = Specs st"
  by (simp add: sendBulk_def Let_def)

lemma Specs_transmit [simp]: "Specs (transmit M env st) = Specs st"
  by (simp add: transmit_def Let_def)

lemma cycle_Inr:
  assumes "cycle M env st = Inr st'"
  obtains st1 where "readAllPorts env 0 (length (Ports (Specs st))) st = Inr st1"
    and "st' = transmit M env st1"
  using assms by (auto simp: cycle_def split: sum.splits)

subsection \<open>Sampling reads the array of analog inputs at the index of the port\<close>

lemma readPort_Multiplier:
  assumes "readPort env i st = Inr st'" and "j < length (Ports (Specs st))"
  shows "Multiplier (Ports (Specs st') ! j) = Multiplier (Ports (Specs st) ! j)"
  using readPort_nth [OF assms] by simp

lemma readAllPorts_bounds:
  "\<forall>j < length (Ports (Specs st)). Multiplier (Ports (Specs st) ! j) \<noteq> 0 \<Longrightarrow>
   n = length (Ports (Specs st)) \<Longrightarrow> i \<le> n \<Longrightarrow> i \<le> 10 \<Longrightarrow>
   (readAllPorts env i n st = Inl OutOfBounds \<and> 10 < n) \<or>
   ((\<exists>st'. readAllPorts env i n st = Inr st') \<and> n \<le> 10)"
proof (induction env i n st rule: readAllPorts.induct)
  case (1 env i n st)
  show ?case
  proof (cases "i < n")
    case False
    then have "readAllPorts env i n st = Inr st"
      by (simp add: readAllPorts.simps [of env i n st])
    moreover have "n \<le> 10" using False "1.prems"(3,4) by simp
    ultimately show ?thesis by simp
  next
    case True
    have nz: "Multiplier (Ports (Specs st) ! i) \<noteq> 0"
      using True "1.prems"(1,2) by simp
    show ?thesis
    proof (cases "i < 10")
      case False
      then have "readPort env i st = Inl OutOfBounds"
        using nz by (simp add: readPort_def)
      then have "readAllPorts env i n st = Inl OutOfBounds"
        using True by (simp add: readAllPorts.simps [of env i n st])
      moreover have "10 < n" using False True by simp
      ultimately show ?thesis by simp
    next
      case lt: True
      have "\<exists>st1. readPort env i st = Inr st1"
        using nz lt True "1.prems"(2) by (simp add: readPort_def Let_def)
      then obtain st1 where st1: "readPort env i st = Inr st1" ..
      have step: "readAllPorts env i n st = readAllPorts env (Suc i) n st1"
        using True st1 by (simp add: readAllPorts.simps [of env i n st])
      have len: "length (Ports (Specs st1)) = length (Ports (Specs st))"
        by (rule readPort_fields(6) [OF st1])
      have nz1: "\<forall>j < length (Ports (Specs st1)). Multiplier (Ports (Specs st1) ! j) \<noteq> 0"
        using "1.prems"(1) len readPort_Multiplier [OF st1] by simp
      have "(readAllPorts env (Suc i) n st1 = Inl OutOfBounds \<and> 10 < n) \<or>
            ((\<exists>st'. readAllPorts env (Suc i) n st1 = Inr st') \<and> n \<le> 10)"
        using "1.IH" [OF True st1 nz1] "1.prems"(2) len True lt by simp
      then show ?thesis by (simp only: step)
    qed
  qed
qed

subsection \<open>Every port that the parser retains has a multiplier that is not zero\<close>

lemma next_token_Inr:
  assumes "next_token ds rest k = Inr x"
  obtains tok rest' where "strtok ds rest = (Some tok, rest')" and "k tok rest' = Inr x"
  using assms by (auto simp: next_token_def split: prod.splits option.splits)

lemma readConnLine_Ports: "readConnLine S b = Inr S' \<Longrightarrow> Ports S' = Ports S \<and> Sensors S' = Sensors S"
  unfolding readConnLine_def
  by (elim next_token_Inr) auto

lemma readBoardLine_Ports: "readBoardLine S b = Inr S' \<Longrightarrow> Ports S' = Ports S \<and> Sensors S' = Sensors S"
  unfolding readBoardLine_def
  by (elim next_token_Inr) auto

lemma readPortLine_nonzero:
  assumes "readPortLine S b = Inr S'" and "\<forall>p\<in>set (Ports S). Multiplier p \<noteq> 0"
  shows "\<forall>p\<in>set (Ports S'). Multiplier p \<noteq> 0"
proof -
  obtain tmp where "S' = (if Multiplier tmp \<noteq> 0 then S\<lparr>Ports := Ports S @ [tmp]\<rparr> else S)"
    using assms(1) by (rule readPortLine_Inr)
  with assms(2) show ?thesis by (auto split: if_splits)
qed

lemma readConfigLine_nonzero:
  assumes "readConfigLine S b = Inr S'" and "\<forall>p\<in>set (Ports S). Multiplier p \<noteq> 0"
  shows "\<forall>p\<in>set (Ports S'). Multiplier p \<noteq> 0"
proof -
  obtain S1 where S1: "(if first_is CHR ''C'' b \<and> strstr b ''ConnInfo''
                        then readConnLine S b else Inr S) = Inr S1"
    and rest: "(if first_is CHR ''B'' b \<and> strstr b ''Board'' then readBoardLine S1 b
                else if first_is CHR ''P'' b then readPortLine S1 b
                else Inr S1) = Inr S'"
    using assms(1) by (auto simp: readConfigLine_def split: sum.splits)
  have "Ports S1 = Ports S"
    using S1 by (auto split: if_splits dest: readConnLine_Ports)
  then have nz1: "\<forall>p\<in>set (Ports S1). Multiplier p \<noteq> 0"
    using assms(2) by simp
  show ?thesis
  proof (cases "first_is CHR ''B'' b \<and> strstr b ''Board''")
    case True
    then have "Ports S' = Ports S1" using rest by (auto dest: readBoardLine_Ports)
    with nz1 show ?thesis by simp
  next
    case False
    show ?thesis
    proof (cases "first_is CHR ''P'' b")
      case True
      with False rest have "readPortLine S1 b = Inr S'" by (auto split: if_splits)
      then show ?thesis using nz1 by (rule readPortLine_nonzero)
    next
      case notP: False
      with False rest have "S' = S1" by (auto split: if_splits)
      with nz1 show ?thesis by simp
    qed
  qed
qed

lemma readRecords_nonzero:
  "readRecords bs S = Inr S' \<Longrightarrow> \<forall>p\<in>set (Ports S). Multiplier p \<noteq> 0 \<Longrightarrow>
   \<forall>p\<in>set (Ports S'). Multiplier p \<noteq> 0"
proof (induction bs arbitrary: S)
  case Nil
  then show ?case by simp
next
  case (Cons b bs)
  then obtain S1 where S1: "readConfigLine S (cstr b) = Inr S1"
    and rest: "readRecords bs S1 = Inr S'"
    by (auto split: sum.splits)
  from Cons.IH [OF rest readConfigLine_nonzero [OF S1 Cons.prems(2)]] show ?case .
qed

lemma readConfigText_nonzero:
  assumes "readConfigText n file = Inr S"
  shows "\<forall>p\<in>set (Ports S). Multiplier p \<noteq> 0"
proof -
  obtain sensors where "readRecords (fgets_loop n file) (BoardSpecs_new\<lparr>Sensors := sensors\<rparr>) = Inr S"
    using assms by (auto simp: readConfigText_def split: sum.splits)
  then show ?thesis
    by (rule readRecords_nonzero) (simp add: BoardSpecs_new_def)
qed

subsection \<open>The steps of the network part, field by field\<close>

lemma setInterval_fields [simp]:
  "OfflineMode (setInterval t st) = OfflineMode st"
  "wifi_tries (setInterval t st) = wifi_tries st"
  "wifi_err (setInterval t st) = wifi_err st"
  "backup (setInterval t st) = backup st"
  "calls (setInterval t st) = calls st"
  "PollingInterval (setInterval t st) = (if 0 < t then t else PollingInterval st)"
  by (auto simp: setInterval_def)

lemma sendBackup_fields [simp]:
  "OfflineMode (sendBackup env k st) = OfflineMode st"
  "wifi_tries (sendBackup env k st) = wifi_tries st"
  "wifi_err (sendBackup env k st) = fst (backup_reply env k)"
  "backup (sendBackup env k st) = backup st"
  "calls (sendBackup env k st) =
     calls st @ [SendBackup (hd (backup st)) (fst (backup_reply env k)) (snd (backup_reply env k))]"
  "PollingInterval (sendBackup env k st) =
     (if 0 < snd (backup_reply env k) then snd (backup_reply env k) else PollingInterval st)"
  by (simp_all add: sendBackup_def)

lemma deleteDataEntry_fields [simp]:
  "OfflineMode (deleteDataEntry st) = OfflineMode st"
  "wifi_tries (deleteDataEntry st) = wifi_tries st"
  "wifi_err (deleteDataEntry st) = wifi_err st"
  "backup (deleteDataEntry st) = tl (backup st)"
  "calls (deleteDataEntry st) = calls st @ [DeleteEntry (hd (backup st))]"
  "PollingInterval (deleteDataEntry st) = PollingInterval st"
  by (simp_all add: deleteDataEntry_def)

lemma dumpSensorDataToFile_fields [simp]:
  "OfflineMode (dumpSensorDataToFile st) = OfflineMode st"
  "wifi_tries (dumpSensorDataToFile st) = wifi_tries st"
  "wifi_err (dumpSensorDataToFile st) = wifi_err st"
  "backup (dumpSensorDataToFile st) = backup st @ [Ports (Specs st)]"
  "calls (dumpSensorDataToFile st) = calls st @ [Dump (Ports (Specs st))]"
  "PollingInterval (dumpSensorDataToFile st) = PollingInterval st"
  by (simp_all add: dumpSensorDataToFile_def)

lemma sendBulk_fields [simp]:
  "OfflineMode (sendBulk M env st) = OfflineMode st"
  "wifi_tries (sendBulk M env st) = wifi_tries st"
  "PollingInterval (sendBulk M env st) =
     (if 0 < snd (bulk_reply env) then snd (bulk_reply env) else PollingInterval st)"
  "calls (sendBulk M env st) =
     calls st @ SendBulk (Ports (Specs st)) (fst (bulk_reply env)) (snd (bulk_reply env)) #
       (if fst (bulk_reply env) \<noteq> NETWORKSUCCESS M then [Dump (Ports (Specs st))] else [])"
  by (simp_all add: sendBulk_def Let_def)

lemma reconnect_fields [simp]:
  "PollingInterval (reconnect M env st) = PollingInterval st"
  "backup (reconnect M env st) = backup st"
  "calls (reconnect M env st) = calls st @ [Connect (connect_reply env)]"
  "OfflineMode (reconnect M env st) =
     (OfflineMode st \<or> (connect_reply env \<noteq> NETWORKSUCCESS M \<and> wifi_tries st - 1 \<le> 0))"
  "wifi_tries (reconnect M env st) =
     (if connect_reply env \<noteq> NETWORKSUCCESS M then wifi_tries st - 1 else WIFITRIES M)"
  by (auto simp: reconnect_def Let_def)

subsection \<open>The draining loop, one turn at a time\<close>

lemma drain_stop:
  "\<not> (timer env k \<le> PollingInterval st \<and> checkForBackupFile st) \<Longrightarrow> drain M env k st = st"
  by (auto simp: drain.simps [of M env k st])

lemma drain_fail:
  "timer env k \<le> PollingInterval st \<Longrightarrow> checkForBackupFile st \<Longrightarrow>
   fst (backup_reply env k) \<noteq> NETWORKSUCCESS M \<Longrightarrow>
   drain M env k st = sendBackup env k st"
  by (simp add: drain.simps [of M env k st])

lemma drain_next:
  "timer env k \<le> PollingInterval st \<Longrightarrow> checkForBackupFile st \<Longrightarrow>
   fst (backup_reply env k) = NETWORKSUCCESS M \<Longrightarrow>
   drain M env k st = drain M env (Suc k) (deleteDataEntry (sendBackup env k st))"
  by (simp add: drain.simps [of M env k st])

text \<open>Induction over the turns of the draining loop.\<close>

lemma drain_cases [case_names stop fail step]:
  fixes P :: "Macros \<Rightarrow> Env \<Rightarrow> nat \<Rightarrow> LoopState \<Rightarrow> bool"
  assumes "\<And>M env k st.
             \<not> (timer env k \<le> PollingInterval st \<and> checkForBackupFile st) \<Longrightarrow> P M env k st"
    and "\<And>M env k st.
             timer env k \<le> PollingInterval st \<Longrightarrow> checkForBackupFile st \<Longrightarrow>
             fst (backup_reply env k) \<noteq> NETWORKSUCCESS M \<Longrightarrow> P M env k st"
    and "\<And>M env k st.
             timer env k \<le> PollingInterval st \<Longrightarrow> checkForBackupFile st \<Longrightarrow>
             fst (backup_reply env k) = NETWORKSUCCESS M \<Longrightarrow>
             P M env (Suc k) (deleteDataEntry (sendBackup env k st)) \<Longrightarrow> P M env k st"
  shows "P M env k st"
proof (induction M env k st rule: drain.induct)
  case (1 M env k st)
  show ?case
  proof (cases "timer env k \<le> PollingInterval st \<and> checkForBackupFile st")
    case False
    then show ?thesis by (rule assms(1))
  next
    case True
    show ?thesis
    proof (cases "fst (backup_reply env k) = NETWORKSUCCESS M")
      case False
      with True show ?thesis by (auto intro: assms(2))
    next
      case ok: True
      have "P M env (Suc k) (deleteDataEntry (sendBackup env k st))"
        using True ok by (intro "1.IH") simp_all
      with True ok show ?thesis by (auto intro: assms(3))
    qed
  qed
qed

lemma drain_fields:
  "OfflineMode (drain M env k st) = OfflineMode st \<and>
   wifi_tries (drain M env k st) = wifi_tries st"
proof (induction M env k st rule: drain_cases)
  case (stop M env k st)
  show ?case by (simp add: drain_stop [OF stop])
next
  case (fail M env k st)
  show ?case by (simp add: drain_fail [OF fail])
next
  case (step M env k st)
  then show ?case by (simp add: drain_next [OF step(1,2,3)])
qed

subsection \<open>Offline mode\<close>

lemma transmit_offline: "OfflineMode st \<Longrightarrow> transmit M env st = dumpSensorDataToFile st"
  by (simp add: transmit_def)

lemma transmit_OfflineMode:
  "OfflineMode (transmit M env st) =
     (OfflineMode st \<or>
      (\<not> connected_first env \<and> connect_reply env \<noteq> NETWORKSUCCESS M \<and> wifi_tries st - 1 \<le> 0))"
  by (auto simp: transmit_def Let_def drain_fields)

lemma transmit_wifi_tries:
  "wifi_tries (transmit M env st) =
     (if \<not> OfflineMode st \<and> \<not> connected_first env
      then (if connect_reply env \<noteq> NETWORKSUCCESS M then wifi_tries st - 1 else WIFITRIES M)
      else wifi_tries st)"
  by (auto simp: transmit_def Let_def drain_fields)

lemma local_watchdogs: "list_all local_call (replicate k (Watchdog d))"
  by (induction k) simp_all

lemma cycle_offline:
  assumes "OfflineMode st" and "cycle M env st = Inr st'"
  shows "OfflineMode st' \<and> wifi_tries st' = wifi_tries st \<and>
         length (backup st') = Suc (length (backup st)) \<and>
         (\<exists>evs. calls st' = calls st @ evs \<and> list_all local_call evs)"
proof -
  obtain st1 where st1: "readAllPorts env 0 (length (Ports (Specs st))) st = Inr st1"
    and st': "st' = transmit M env st1"
    using assms(2) by (rule cycle_Inr)
  note f = readAllPorts_fields [OF st1]
  obtain k where k: "calls st1 = calls st @ replicate k (Watchdog (PollingInterval st * 5))"
    using readAllPorts_calls [OF st1] by blast
  have off: "OfflineMode st1" using f assms(1) by simp
  have dump: "st' = dumpSensorDataToFile st1"
    using st' off by (simp add: transmit_offline)
  have "calls st' =
          calls st @ (replicate k (Watchdog (PollingInterval st * 5)) @ [Dump (Ports (Specs st1))])"
    using dump k by simp
  moreover have "list_all local_call
          (replicate k (Watchdog (PollingInterval st * 5)) @ [Dump (Ports (Specs st1))])"
    by (simp add: local_watchdogs)
  ultimately have "\<exists>evs. calls st' = calls st @ evs \<and> list_all local_call evs"
    by blast
  then show ?thesis using dump f off by simp
qed

lemma run_offline:
  "OfflineMode st \<Longrightarrow> run M envs st = Inr st' \<Longrightarrow>
   OfflineMode st' \<and> wifi_tries st' = wifi_tries st \<and>
   length (backup st') = length (backup st) + length envs \<and>
   (\<exists>evs. calls st' = calls st @ evs \<and> list_all local_call evs)"
proof (induction envs arbitrary: st)
  case Nil
  then have "calls st' = calls st @ [] \<and> list_all local_call []" by simp
  then have "\<exists>evs. calls st' = calls st @ evs \<and> list_all local_call evs" by blast
  with Nil show ?case by simp
next
  case (Cons env envs)
  then obtain st1 where st1: "cycle M env st = Inr st1" and rest: "run M envs st1 = Inr st'"
    by (auto split: sum.splits)
  note c = cycle_offline [OF Cons.prems(1) st1]
  then have off1: "OfflineMode st1" by simp
  note r = Cons.IH [OF off1 rest]
  obtain evs1 where evs1: "calls st1 = calls st @ evs1" "list_all local_call evs1"
    using c by blast
  obtain evs2 where evs2: "calls st' = calls st1 @ evs2" "list_all local_call evs2"
    using r by blast
  have "calls st' = calls st @ (evs1 @ evs2) \<and> list_all local_call (evs1 @ evs2)"
    using evs1 evs2 by simp
  then have "\<exists>evs. calls st' = calls st @ evs \<and> list_all local_call evs" by blast
  then show ?case using c r by simp
qed

text \<open>
  The attempt made before the loop takes a try without that test: when it fails, the loop
  starts online with one try less.
\<close>

lemma startup_failed_attempt:
  assumes "\<not> OfflineMode (startup M benv S file)" and "\<not> boot_connected benv"
    and "boot_connect_reply benv \<noteq> NETWORKSUCCESS M"
  shows "wifi_tries (startup M benv S file) = WIFITRIES M - 1"
  using assms by (simp add: startup_def Let_def)

subsection \<open>The draining loop adopts the interval of every reply\<close>

lemma drain_outcome_eq:
  "(length (backup (drain M env k st)), PollingInterval (drain M env k st)) =
   drain_outcome (NETWORKSUCCESS M) (timer env) (backup_reply env) k
     (length (backup st)) (PollingInterval st)"
proof (induction M env k st rule: drain_cases)
  case (stop M env k st)
  show ?case
  proof (cases "backup st")
    case Nil
    then show ?thesis by (simp add: drain_stop [OF stop])
  next
    case (Cons e rest)
    then have "\<not> timer env k \<le> PollingInterval st"
      using stop by (simp add: checkForBackupFile_def)
    then show ?thesis using Cons by (simp add: drain_stop [OF stop])
  qed
next
  case (fail M env k st)
  obtain e rest where b: "backup st = e # rest"
    using fail(2) by (cases "backup st") (auto simp: checkForBackupFile_def)
  show ?case
    using fail(1,3) b by (simp add: drain_fail [OF fail] adopt_override_def)
next
  case (step M env k st)
  obtain e rest where b: "backup st = e # rest"
    using step(2) by (cases "backup st") (auto simp: checkForBackupFile_def)
  show ?case
    using step(1,3,4) b by (simp add: drain_next [OF step(1,2,3)] adopt_override_def)
qed

lemma transmit_interval:
  "PollingInterval (transmit M env st) =
     (if \<not> OfflineMode st \<and> connected_second env then
        (case drain_outcome (NETWORKSUCCESS M) (timer env) (backup_reply env) 0
                (length (backup st)) (PollingInterval st) of
           (left, p) \<Rightarrow> if left = 0 then adopt_override p (snd (bulk_reply env)) else p)
      else PollingInterval st)"
proof -
  define st1 where "st1 = (if \<not> connected_first env then reconnect M env st else st)"
  define st2 where "st2 = drain M env 0 st1"
  have 1: "backup st1 = backup st" "PollingInterval st1 = PollingInterval st"
    by (simp_all add: st1_def)
  have 2: "(length (backup st2), PollingInterval st2) =
           drain_outcome (NETWORKSUCCESS M) (timer env) (backup_reply env) 0
             (length (backup st)) (PollingInterval st)"
    unfolding st2_def using drain_outcome_eq [of M env 0 st1] by (simp add: 1)
  have on: "\<not> OfflineMode st \<Longrightarrow> transmit M env st =
          (if connected_second env then
             (if \<not> checkForBackupFile st2 then sendBulk M env st2 else dumpSensorDataToFile st2)
           else dumpSensorDataToFile st1)"
    by (simp add: transmit_def Let_def st1_def st2_def)
  show ?thesis
  proof (cases "OfflineMode st")
    case True
    then show ?thesis by (simp add: transmit_offline)
  next
    case False
    show ?thesis
    proof (cases "connected_second env")
      case no: False
      with False show ?thesis by (simp add: on [OF False] 1)
    next
      case yes: True
      show ?thesis
      proof (cases "backup st2")
        case Nil
        then have "checkForBackupFile st2 = False" by (simp add: checkForBackupFile_def)
        with False yes Nil 2 [symmetric] show ?thesis
          by (simp add: on [OF False] adopt_override_def)
      next
        case (Cons e rest)
        then have "checkForBackupFile st2 = True" by (simp add: checkForBackupFile_def)
        with False yes Cons 2 [symmetric] show ?thesis
          by (simp add: on [OF False])
      qed
    qed
  qed
qed

section \<open>Claims about the control loop\<close>

text \<open>
  C6. After a cycle, the value of every port with a multiplier that is not zero (every
  retained port) is plus infinity when the scaled sample exceeds the ceiling of the port,
  minus infinity when it is below the floor, and the scaled sample otherwise. The test of
  the ceiling comes first.
\<close>

theorem C6_value_range_checked:
  assumes "cycle M env st = Inr st'"
    and "i < length (Ports (Specs st))"
    and "Multiplier (Ports (Specs st) ! i) \<noteq> 0"
  shows "Value (Ports (Specs st') ! i) =
         (if analog env i * Multiplier (Ports (Specs st) ! i)
               > RangeCeiling (Ports (Specs st) ! i) then PlusHuge
          else if analog env i * Multiplier (Ports (Specs st) ! i)
               < RangeFloor (Ports (Specs st) ! i) then MinusHuge
          else Finite (analog env i * Multiplier (Ports (Specs st) ! i)))"
proof -
  obtain st1 where st1: "readAllPorts env 0 (length (Ports (Specs st))) st = Inr st1"
    and st': "st' = transmit M env st1"
    using assms(1) by (rule cycle_Inr)
  have "Ports (Specs st') ! i = Ports (Specs st1) ! i"
    by (simp add: st')
  with readAllPorts_nth [OF st1 assms(2)] assms(2,3) show ?thesis
    by simp
qed

theorem C6_value_range_checked_witness:
  "\<exists>st'. cycle example_macros example_env example_state = Inr st' \<and>
     2 < length (Ports (Specs example_state)) \<and>
     Multiplier (Ports (Specs example_state) ! 0) \<noteq> 0 \<and>
     Multiplier (Ports (Specs example_state) ! 1) \<noteq> 0 \<and>
     Multiplier (Ports (Specs example_state) ! 2) \<noteq> 0 \<and>
     analog example_env 0 * Multiplier (Ports (Specs example_state) ! 0) = 600 \<and>
     Value (Ports (Specs st') ! 0) = PlusHuge \<and>
     analog example_env 1 * Multiplier (Ports (Specs example_state) ! 1) = - 5 \<and>
     Value (Ports (Specs st') ! 1) = MinusHuge \<and>
     analog example_env 2 * Multiplier (Ports (Specs example_state) ! 2) = 250 \<and>
     Value (Ports (Specs st') ! 2) = Finite 250"
proof -
  have "\<not> isl (cycle example_macros example_env example_state)"
    by code_simp
  then obtain st' where c: "cycle example_macros example_env example_state = Inr st'"
    by (cases "cycle example_macros example_env example_state") auto
  have ports: "Ports (Specs example_state) = [ranged_port 1000, ranged_port (- 10), ranged_port 500]"
    by (simp add: example_state_def)
  have an: "analog example_env = (\<lambda>i. if i = 0 then 3 / 5 else 1 / 2)"
    by (simp add: example_env_def)
  have "Value (Ports (Specs st') ! 0) = PlusHuge"
    using C6_value_range_checked [OF c, of 0] by (simp add: ports an ranged_port_def)
  moreover have "Value (Ports (Specs st') ! 1) = MinusHuge"
    using C6_value_range_checked [OF c, of 1] by (simp add: ports an ranged_port_def)
  moreover have "Value (Ports (Specs st') ! 2) = Finite 250"
    using C6_value_range_checked [OF c, of 2] by (simp add: ports an ranged_port_def)
  ultimately show ?thesis
    using c by (simp add: ports an ranged_port_def)
qed

text \<open>
  C4. In a cycle that starts online and without a connection, a failed attempt that
  leaves no try sets the offline mode. From a state in offline mode, every state of the
  run is in offline mode, the calls made are stores to the backup file and watchdog
  resets only (no connection attempt, no send), each cycle adds one entry to the backup
  file, and the number of tries left does not change. A successful attempt sets the
  number of tries left to \<^verbatim>\<open>WIFITRIES\<close>.
\<close>

theorem C4_offline_mode_is_permanent:
  "(\<not> OfflineMode st \<and> \<not> connected_first env \<and> connect_reply env \<noteq> NETWORKSUCCESS M \<and>
    wifi_tries st - 1 \<le> 0 \<and> cycle M env st = Inr st1 \<longrightarrow> OfflineMode st1) \<and>
   (OfflineMode st \<and> run M envs st = Inr st2 \<longrightarrow>
      OfflineMode st2 \<and> wifi_tries st2 = wifi_tries st \<and>
      length (backup st2) = length (backup st) + length envs \<and>
      (\<exists>evs. calls st2 = calls st @ evs \<and> list_all local_call evs)) \<and>
   (\<not> OfflineMode st \<and> \<not> connected_first env \<and> connect_reply env = NETWORKSUCCESS M \<and>
    cycle M env st = Inr st3 \<longrightarrow> \<not> OfflineMode st3 \<and> wifi_tries st3 = WIFITRIES M)"
proof (intro conjI impI)
  assume a: "\<not> OfflineMode st \<and> \<not> connected_first env \<and>
             connect_reply env \<noteq> NETWORKSUCCESS M \<and> wifi_tries st - 1 \<le> 0 \<and>
             cycle M env st = Inr st1"
  then obtain s where s: "readAllPorts env 0 (length (Ports (Specs st))) st = Inr s"
    and st1: "st1 = transmit M env s"
    by (auto elim: cycle_Inr)
  show "OfflineMode st1"
    using a readAllPorts_fields [OF s] by (simp add: st1 transmit_OfflineMode)
next
  assume b: "OfflineMode st \<and> run M envs st = Inr st2"
  then have r: "OfflineMode st2 \<and> wifi_tries st2 = wifi_tries st \<and>
      length (backup st2) = length (backup st) + length envs \<and>
      (\<exists>evs. calls st2 = calls st @ evs \<and> list_all local_call evs)"
    using run_offline [of st M envs st2] by simp
  from r show "OfflineMode st2" by simp
  from r show "wifi_tries st2 = wifi_tries st" by simp
  from r show "length (backup st2) = length (backup st) + length envs" by simp
  from r show "\<exists>evs. calls st2 = calls st @ evs \<and> list_all local_call evs" by simp
next
  assume c: "\<not> OfflineMode st \<and> \<not> connected_first env \<and>
             connect_reply env = NETWORKSUCCESS M \<and> cycle M env st = Inr st3"
  then obtain s where s: "readAllPorts env 0 (length (Ports (Specs st))) st = Inr s"
    and st3: "st3 = transmit M env s"
    by (auto elim: cycle_Inr)
  show "\<not> OfflineMode st3"
    using c readAllPorts_fields [OF s] by (simp add: st3 transmit_OfflineMode)
  show "wifi_tries st3 = WIFITRIES M"
    using c readAllPorts_fields [OF s] by (simp add: st3 transmit_wifi_tries)
qed

theorem C4_offline_mode_is_permanent_witness:
  "\<exists>st1 st2 st3.
     \<not> OfflineMode example_state \<and>
     \<not> connected_first (example_env\<lparr>connected_first := False, connect_reply := 1\<rparr>) \<and>
     connect_reply (example_env\<lparr>connected_first := False, connect_reply := 1\<rparr>)
       \<noteq> NETWORKSUCCESS example_macros \<and>
     wifi_tries example_state - 1 \<le> 0 \<and>
     cycle example_macros (example_env\<lparr>connected_first := False, connect_reply := 1\<rparr>)
       example_state = Inr st1 \<and>
     OfflineMode st1 \<and>
     OfflineMode (example_state\<lparr>OfflineMode := True\<rparr>) \<and>
     run example_macros [example_env, example_env] (example_state\<lparr>OfflineMode := True\<rparr>) =
       Inr st2 \<and>
     OfflineMode st2 \<and>
     length (backup st2) = 2 \<and>
     (\<exists>evs. calls st2 = calls (example_state\<lparr>OfflineMode := True\<rparr>) @ evs \<and>
        list_all local_call evs) \<and>
     \<not> connected_first (example_env\<lparr>connected_first := False\<rparr>) \<and>
     connect_reply (example_env\<lparr>connected_first := False\<rparr>) = NETWORKSUCCESS example_macros \<and>
     cycle example_macros (example_env\<lparr>connected_first := False\<rparr>) example_state = Inr st3 \<and>
     \<not> OfflineMode st3 \<and> wifi_tries st3 = 3"
proof -
  let ?fail = "example_env\<lparr>connected_first := False, connect_reply := 1\<rparr>"
  let ?ok = "example_env\<lparr>connected_first := False\<rparr>"
  let ?off = "example_state\<lparr>OfflineMode := True\<rparr>"
  have "\<not> isl (cycle example_macros ?fail example_state)"
    by code_simp
  then obtain st1 where c1: "cycle example_macros ?fail example_state = Inr st1"
    by (cases "cycle example_macros ?fail example_state") auto
  have "\<not> isl (run example_macros [example_env, example_env] ?off)"
    by code_simp
  then obtain st2 where c2: "run example_macros [example_env, example_env] ?off = Inr st2"
    by (cases "run example_macros [example_env, example_env] ?off") auto
  have "\<not> isl (cycle example_macros ?ok example_state)"
    by code_simp
  then obtain st3 where c3: "cycle example_macros ?ok example_state = Inr st3"
    by (cases "cycle example_macros ?ok example_state") auto
  have h: "\<not> OfflineMode example_state" "wifi_tries example_state - 1 \<le> 0"
    "\<not> connected_first ?fail" "connect_reply ?fail \<noteq> NETWORKSUCCESS example_macros"
    "\<not> connected_first ?ok" "connect_reply ?ok = NETWORKSUCCESS example_macros"
    "OfflineMode ?off" "backup ?off = []" "WIFITRIES example_macros = 3"
    by (simp_all add: example_state_def example_env_def example_macros_def)
  note thm1 = C4_offline_mode_is_permanent
    [of example_state ?fail example_macros st1 "[]" example_state example_state]
  note thm2 = C4_offline_mode_is_permanent
    [of ?off example_env example_macros ?off "[example_env, example_env]" st2 ?off]
  note thm3 = C4_offline_mode_is_permanent
    [of example_state ?ok example_macros example_state "[]" example_state st3]
  have 1: "OfflineMode st1" using thm1 h c1 by blast
  have 2: "OfflineMode st2 \<and> length (backup st2) = 2 \<and>
           (\<exists>evs. calls st2 = calls ?off @ evs \<and> list_all local_call evs)"
    using thm2 h(7,8) c2 by simp
  have 3: "\<not> OfflineMode st3 \<and> wifi_tries st3 = 3" using thm3 h c3 by simp
  show ?thesis
    using h(1-7) c1 c2 c3 1 2 3 by blast
qed

text \<open>
  C5. The calls of the draining loop are, for each entry of a first part of the backup
  file, in the order of the file, a send of that entry with the status of success
  followed by its deletion, and then at most one more call: a send that failed, of the
  entry that is now the first of the file. The file after the loop is the rest of the
  file before it: an entry is deleted only right after its own successful send, and after
  a failed send nothing is sent or deleted.
\<close>

theorem C5_entry_deleted_only_after_acknowledged_send:
  "\<exists>sent tail.
     backup st = map fst sent @ backup (drain M env k st) \<and>
     calls (drain M env k st) = calls st @ acknowledged (NETWORKSUCCESS M) sent @ tail \<and>
     (tail = [] \<or>
      (\<exists>e rest err t. backup (drain M env k st) = e # rest \<and> err \<noteq> NETWORKSUCCESS M \<and>
         tail = [SendBackup e err t]))"
proof (induction M env k st rule: drain_cases)
  case (stop M env k st)
  have "backup st = map fst [] @ backup st \<and>
        calls st = calls st @ acknowledged (NETWORKSUCCESS M) [] @ [] \<and>
        (([] :: event list) = [] \<or>
         (\<exists>e rest err t. backup st = e # rest \<and> err \<noteq> NETWORKSUCCESS M \<and>
            [] = [SendBackup e err t]))"
    by simp
  then show ?case unfolding drain_stop [OF stop] by blast
next
  case (fail M env k st)
  obtain e rest where b: "backup st = e # rest"
    using fail(2) by (cases "backup st") (auto simp: checkForBackupFile_def)
  let ?tail = "[SendBackup e (fst (backup_reply env k)) (snd (backup_reply env k))]"
  have "backup st = map fst [] @ backup (sendBackup env k st) \<and>
        calls (sendBackup env k st) = calls st @ acknowledged (NETWORKSUCCESS M) [] @ ?tail \<and>
        (?tail = [] \<or>
         (\<exists>e' rest' err t. backup (sendBackup env k st) = e' # rest' \<and>
            err \<noteq> NETWORKSUCCESS M \<and> ?tail = [SendBackup e' err t]))"
    using b fail(3) by simp
  then show ?case unfolding drain_fail [OF fail] by blast
next
  case (step M env k st)
  obtain e rest where b: "backup st = e # rest"
    using step(2) by (cases "backup st") (auto simp: checkForBackupFile_def)
  let ?st2 = "deleteDataEntry (sendBackup env k st)"
  let ?end = "drain M env (Suc k) ?st2"
  obtain sent tail where s: "backup ?st2 = map fst sent @ backup ?end"
    and c: "calls ?end = calls ?st2 @ acknowledged (NETWORKSUCCESS M) sent @ tail"
    and t: "tail = [] \<or>
            (\<exists>e rest err t. backup ?end = e # rest \<and> err \<noteq> NETWORKSUCCESS M \<and>
               tail = [SendBackup e err t])"
    using step(4) by blast
  let ?sent = "(e, snd (backup_reply env k)) # sent"
  have "backup st = map fst ?sent @ backup ?end"
    using s b by simp
  moreover have "calls ?end = calls st @ acknowledged (NETWORKSUCCESS M) ?sent @ tail"
    using c b step(3) by simp
  ultimately have "backup st = map fst ?sent @ backup ?end \<and>
      calls ?end = calls st @ acknowledged (NETWORKSUCCESS M) ?sent @ tail \<and>
      (tail = [] \<or>
       (\<exists>e rest err t. backup ?end = e # rest \<and> err \<noteq> NETWORKSUCCESS M \<and>
          tail = [SendBackup e err t]))"
    using t by simp
  then show ?case unfolding drain_next [OF step(1,2,3)] by blast
qed

theorem C5_entry_deleted_only_after_acknowledged_send_witness:
  "backup (drain example_macros (example_env\<lparr>backup_reply := (\<lambda>k. if k = 0 then (0, - 1) else (1, - 1))\<rparr>) 0
            (example_state\<lparr>backup := [[ranged_port 1], [ranged_port 2]]\<rparr>)) =
     [[ranged_port 2]] \<and>
   calls (drain example_macros (example_env\<lparr>backup_reply := (\<lambda>k. if k = 0 then (0, - 1) else (1, - 1))\<rparr>) 0
            (example_state\<lparr>backup := [[ranged_port 1], [ranged_port 2]]\<rparr>)) =
     [SendBackup [ranged_port 1] 0 (- 1), DeleteEntry [ranged_port 1],
      SendBackup [ranged_port 2] 1 (- 1)] \<and>
   (\<exists>sent tail.
      backup (example_state\<lparr>backup := [[ranged_port 1], [ranged_port 2]]\<rparr>) =
        map fst sent @
        backup (drain example_macros (example_env\<lparr>backup_reply := (\<lambda>k. if k = 0 then (0, - 1) else (1, - 1))\<rparr>) 0
                  (example_state\<lparr>backup := [[ranged_port 1], [ranged_port 2]]\<rparr>)) \<and>
      calls (drain example_macros (example_env\<lparr>backup_reply := (\<lambda>k. if k = 0 then (0, - 1) else (1, - 1))\<rparr>) 0
               (example_state\<lparr>backup := [[ranged_port 1], [ranged_port 2]]\<rparr>)) =
        calls (example_state\<lparr>backup := [[ranged_port 1], [ranged_port 2]]\<rparr>) @
        acknowledged (NETWORKSUCCESS example_macros) sent @ tail \<and>
      (tail = [] \<or>
       (\<exists>e rest err t.
          backup (drain example_macros (example_env\<lparr>backup_reply := (\<lambda>k. if k = 0 then (0, - 1) else (1, - 1))\<rparr>) 0
                    (example_state\<lparr>backup := [[ranged_port 1], [ranged_port 2]]\<rparr>)) = e # rest \<and>
          err \<noteq> NETWORKSUCCESS example_macros \<and> tail = [SendBackup e err t])))"
proof -
  let ?env = "example_env\<lparr>backup_reply := (\<lambda>k. if k = 0 then (0, - 1) else (1, - 1))\<rparr>"
  let ?st = "example_state\<lparr>backup := [[ranged_port 1], [ranged_port 2]]\<rparr>"
  have 1: "backup (drain example_macros ?env 0 ?st) = [[ranged_port 2]]"
    by code_simp
  have 2: "calls (drain example_macros ?env 0 ?st) =
             [SendBackup [ranged_port 1] 0 (- 1), DeleteEntry [ranged_port 1],
              SendBackup [ranged_port 2] 1 (- 1)]"
    by code_simp
  from 1 2 C5_entry_deleted_only_after_acknowledged_send [of ?st example_macros ?env 0]
  show ?thesis by (intro conjI)
qed

text \<open>
  C9. The polling interval after a cycle is the one that the replies of the environment
  give. In a cycle that is online and connected, the backlog is drained turn by turn, and
  after the send of each backlog entry the interval that the reply returned is the new
  polling interval when it is strictly positive, and the polling interval is unchanged
  otherwise (as with the value -1 that stands for no interval); when no entry is left, the
  current readings are sent and the interval of that reply is adopted in the same way.
  In any other cycle the polling interval does not change. The code adopts the interval
  after every send, whatever its status.
\<close>

theorem C9_interval_adopted_when_positive:
  assumes "cycle M env st = Inr st'"
  shows "PollingInterval st' =
     (if \<not> OfflineMode st \<and> connected_second env then
        (case drain_outcome (NETWORKSUCCESS M) (timer env) (backup_reply env) 0
                (length (backup st)) (PollingInterval st) of
           (left, p) \<Rightarrow> if left = 0 then adopt_override p (snd (bulk_reply env)) else p)
      else PollingInterval st)"
proof -
  obtain st1 where st1: "readAllPorts env 0 (length (Ports (Specs st))) st = Inr st1"
    and st': "st' = transmit M env st1"
    using assms by (rule cycle_Inr)
  from readAllPorts_fields [OF st1] show ?thesis
    by (simp add: st' transmit_interval)
qed

theorem C9_interval_adopted_when_positive_witness:
  "\<exists>st1 st2 st3.
     cycle example_macros (example_env\<lparr>bulk_reply := (0, - 1)\<rparr>)
       (example_state\<lparr>backup := [[ranged_port 1]]\<rparr>) = Inr st1 \<and>
     backup_reply (example_env\<lparr>bulk_reply := (0, - 1)\<rparr>) 0 = (NETWORKSUCCESS example_macros, 10) \<and>
     PollingInterval (example_state\<lparr>backup := [[ranged_port 1]]\<rparr>) = 5 \<and>
     PollingInterval st1 = 10 \<and>
     cycle example_macros example_env example_state = Inr st2 \<and>
     bulk_reply example_env = (NETWORKSUCCESS example_macros, 10) \<and>
     PollingInterval example_state = 5 \<and>
     PollingInterval st2 = 10 \<and>
     cycle example_macros (example_env\<lparr>bulk_reply := (0, - 1)\<rparr>) example_state = Inr st3 \<and>
     PollingInterval st3 = 5"
proof -
  let ?none = "example_env\<lparr>bulk_reply := (0, - 1)\<rparr>"
  let ?backlog = "example_state\<lparr>backup := [[ranged_port 1]]\<rparr>"
  have "\<not> isl (cycle example_macros ?none ?backlog)"
    by code_simp
  then obtain st1 where c1: "cycle example_macros ?none ?backlog = Inr st1"
    by (cases "cycle example_macros ?none ?backlog") auto
  have "\<not> isl (cycle example_macros example_env example_state)"
    by code_simp
  then obtain st2 where c2: "cycle example_macros example_env example_state = Inr st2"
    by (cases "cycle example_macros example_env example_state") auto
  have "\<not> isl (cycle example_macros ?none example_state)"
    by code_simp
  then obtain st3 where c3: "cycle example_macros ?none example_state = Inr st3"
    by (cases "cycle example_macros ?none example_state") auto
  have p1: "PollingInterval st1 = 10"
    using C9_interval_adopted_when_positive [OF c1]
    by (simp add: example_env_def example_state_def example_macros_def adopt_override_def)
  have p2: "PollingInterval st2 = 10"
    using C9_interval_adopted_when_positive [OF c2]
    by (simp add: example_env_def example_state_def example_macros_def adopt_override_def)
  have p3: "PollingInterval st3 = 5"
    using C9_interval_adopted_when_positive [OF c3]
    by (simp add: example_env_def example_state_def example_macros_def adopt_override_def)
  have h: "backup_reply ?none 0 = (NETWORKSUCCESS example_macros, 10)"
    "bulk_reply example_env = (NETWORKSUCCESS example_macros, 10)"
    "PollingInterval ?backlog = 5" "PollingInterval example_state = 5"
    by (simp_all add: example_env_def example_state_def example_macros_def)
  from c1 c2 c3 p1 p2 p3 h show ?thesis by blast
qed

text \<open>
  C10. For a topology that the parser produced, the sampling step of a cycle stays within
  the 10 analog inputs if and only if the topology has at most 10 ports, and with more it
  reads beyond the array. Nothing enforces the limit: the parser retains eleven ports from
  a text with eleven port lines.
\<close>

theorem C10_sampling_within_bounds_iff_at_most_10_ports:
  assumes "readConfigText n file = Inr S" and "Specs st = S"
  shows "((\<exists>st'. cycle M env st = Inr st') = (length (Ports S) \<le> 10)) \<and>
         ((cycle M env st = Inl OutOfBounds) = (10 < length (Ports S))) \<and>
         readConfigText 1024 eleven_ports =
           Inr (example_specs\<lparr>Ports := replicate 11 (example_port ''P'')\<rparr>)"
proof -
  have "\<forall>p\<in>set (Ports (Specs st)). Multiplier p \<noteq> 0"
    using readConfigText_nonzero [OF assms(1)] assms(2) by simp
  then have nz: "\<forall>j < length (Ports (Specs st)). Multiplier (Ports (Specs st) ! j) \<noteq> 0"
    by simp
  have "(readAllPorts env 0 (length (Ports (Specs st))) st = Inl OutOfBounds \<and>
           10 < length (Ports (Specs st))) \<or>
        ((\<exists>st'. readAllPorts env 0 (length (Ports (Specs st))) st = Inr st') \<and>
           length (Ports (Specs st)) \<le> 10)"
    by (rule readAllPorts_bounds [OF nz]) simp_all
  then have "((\<exists>st'. cycle M env st = Inr st') = (length (Ports S) \<le> 10)) \<and>
             ((cycle M env st = Inl OutOfBounds) = (10 < length (Ports S)))"
    using assms(2) by (auto simp: cycle_def)
  moreover have "readConfigText 1024 eleven_ports =
                   Inr (example_specs\<lparr>Ports := replicate 11 (example_port ''P'')\<rparr>)"
    by code_simp
  ultimately show ?thesis by simp
qed

theorem C10_sampling_within_bounds_iff_at_most_10_ports_witness:
  "readConfigText 1024 eleven_ports =
     Inr (example_specs\<lparr>Ports := replicate 11 (example_port ''P'')\<rparr>) \<and>
   Specs (example_state\<lparr>Specs := example_specs\<lparr>Ports := replicate 11 (example_port ''P'')\<rparr>\<rparr>) =
     example_specs\<lparr>Ports := replicate 11 (example_port ''P'')\<rparr> \<and>
   length (Ports (example_specs\<lparr>Ports := replicate 11 (example_port ''P'')\<rparr>)) = 11 \<and>
   cycle example_macros example_env
     (example_state\<lparr>Specs := example_specs\<lparr>Ports := replicate 11 (example_port ''P'')\<rparr>\<rparr>) =
     Inl OutOfBounds"
proof -
  have h1: "readConfigText 1024 eleven_ports =
              Inr (example_specs\<lparr>Ports := replicate 11 (example_port ''P'')\<rparr>)"
    by code_simp
  have h2: "Specs (example_state\<lparr>Specs := example_specs\<lparr>Ports := replicate 11 (example_port ''P'')\<rparr>\<rparr>) =
              example_specs\<lparr>Ports := replicate 11 (example_port ''P'')\<rparr>"
    by simp
  have h3: "length (Ports (example_specs\<lparr>Ports := replicate 11 (example_port ''P'')\<rparr>)) = 11"
    by simp
  from C10_sampling_within_bounds_iff_at_most_10_ports [OF h1 h2, of example_macros example_env]
    h1 h2 h3
  show ?thesis by simp
qed

end
